theory Spec2Isabelle
  imports Main "HOL-Library.Sublist" "HOL-Library.AList"
begin

section \<open>The filesystem the organizer works on\<close>

text \<open>
  \<^verbatim>\<open>main.py\<close> touches the disk through \<^verbatim>\<open>pathlib\<close>, \<^verbatim>\<open>open\<close> and \<^verbatim>\<open>shutil\<close>.
  A path is the list of its components below the root (\<open>[]\<close> is \<^verbatim>\<open>/\<close>), already
  normalised as \<^verbatim>\<open>Path(...)\<close> does. The disk is an association list from paths to
  nodes; its order is the order in which a directory walk meets the entries. A lookup
  takes the first entry of a path. Symbolic links, write permissions and unreadable
  directories are outside the model; a regular file carries its read permission and
  its bytes. Text is a list of 8-bit characters (Latin-1 code points).
\<close>

type_synonym path = "string list"

datatype node = File (readable: bool) (content: string) | Dir

type_synonym fs = "(path \<times> node) list"

text \<open>\<^verbatim>\<open>str(path)\<close>, \<^verbatim>\<open>path.parent\<close>, \<^verbatim>\<open>path.name\<close>, \<^verbatim>\<open>path.relative_to(folder)\<close>.\<close>

definition str_path :: "path \<Rightarrow> string" where
  "str_path p = (if p = [] then ''/'' else concat (map (\<lambda>c. ''/'' @ c) p))"

definition parent :: "path \<Rightarrow> path" where
  "parent p = butlast p"

definition name :: "path \<Rightarrow> string" where
  "name p = (if p = [] then [] else last p)"

definition relative_to :: "path \<Rightarrow> path \<Rightarrow> path" where
  "relative_to p folder = drop (length folder) p"

fun str_rel :: "path \<Rightarrow> string" where
  "str_rel [] = ''.''"
| "str_rel [c] = c"
| "str_rel (c # d # ds) = c @ ''/'' @ str_rel (d # ds)"

definition path_exists :: "fs \<Rightarrow> path \<Rightarrow> bool" where
  "path_exists disk p = (map_of disk p \<noteq> None)"

definition is_file :: "fs \<Rightarrow> path \<Rightarrow> bool" where
  "is_file disk p = (case map_of disk p of Some (File r c) \<Rightarrow> True | _ \<Rightarrow> False)"

definition is_dir :: "fs \<Rightarrow> path \<Rightarrow> bool" where
  "is_dir disk p = (map_of disk p = Some Dir)"

text \<open>
  \<^verbatim>\<open>folder.rglob("*")\<close>: every entry strictly below the folder, in walk order; nothing
  when the folder is not a directory.
\<close>

definition rglob :: "fs \<Rightarrow> path \<Rightarrow> path list" where
  "rglob disk folder =
     (if is_dir disk folder then filter (strict_prefix folder) (map fst disk) else [])"

text \<open>The exceptions the library calls raise, and \<^verbatim>\<open>str(e)\<close>.\<close>

datatype exn =
    FileNotFoundError path
  | PermissionError path
  | IsADirectoryError path
  | NotADirectoryError path
  | FileExistsError path
  | ShutilError string

definition quoted :: "path \<Rightarrow> string" where
  "quoted p = [CHR 0x27] @ str_path p @ [CHR 0x27]"

fun str_exn :: "exn \<Rightarrow> string" where
  "str_exn (FileNotFoundError p) = ''[Errno 2] No such file or directory: '' @ quoted p"
| "str_exn (PermissionError p) = ''[Errno 13] Permission denied: '' @ quoted p"
| "str_exn (IsADirectoryError p) = ''[Errno 21] Is a directory: '' @ quoted p"
| "str_exn (NotADirectoryError p) = ''[Errno 20] Not a directory: '' @ quoted p"
| "str_exn (FileExistsError p) = ''[Errno 17] File exists: '' @ quoted p"
| "str_exn (ShutilError m) = m"

text \<open>\<^verbatim>\<open>open(p, "rb")\<close> read to the end, and \<^verbatim>\<open>open(p, "w")\<close> followed by one write.\<close>

definition read_bytes :: "fs \<Rightarrow> path \<Rightarrow> exn + string" where
  "read_bytes disk p =
     (case map_of disk p of
        None \<Rightarrow> Inl (FileNotFoundError p)
      | Some Dir \<Rightarrow> Inl (IsADirectoryError p)
      | Some (File r c) \<Rightarrow> if r then Inr c else Inl (PermissionError p))"

definition write_text :: "fs \<Rightarrow> path \<Rightarrow> string \<Rightarrow> exn + fs" where
  "write_text disk p s =
     (case map_of disk p of
        Some Dir \<Rightarrow> Inl (IsADirectoryError p)
      | Some (File r c) \<Rightarrow> Inr (AList.update p (File r s) disk)
      | None \<Rightarrow>
          if is_dir disk (parent p) then Inr (AList.update p (File True s) disk)
          else Inl (FileNotFoundError p))"

text \<open>
  \<^verbatim>\<open>path.mkdir(parents=True, exist_ok=True)\<close>: nothing to do on a directory; an error,
  before anything is created, when the path or one of its ancestors is a file;
  otherwise every missing ancestor and the path itself are created, outermost first.
\<close>

definition mkdir_parents :: "fs \<Rightarrow> path \<Rightarrow> exn + fs" where
  "mkdir_parents disk p =
     (if is_dir disk p then Inr disk
      else if is_file disk p then Inl (FileExistsError p)
      else if list_ex (is_file disk) (prefixes p) then Inl (NotADirectoryError p)
      else Inr (disk @ map (\<lambda>a. (a, Dir)) (filter (\<lambda>a. \<not> path_exists disk a) (prefixes p))))"

text \<open>
  \<^verbatim>\<open>shutil.move(src, dst)\<close> on an existing source. A destination that is a directory
  receives the source under its own name, unless that name is taken; a file replaces
  an existing destination file; a directory moves with everything below it, never
  into itself and never onto a file.
\<close>

definition rename_entry :: "path \<Rightarrow> path \<Rightarrow> path \<times> node \<Rightarrow> path \<times> node" where
  "rename_entry src dst e =
     (if prefix src (fst e) then (dst @ drop (length src) (fst e), snd e) else e)"

definition shutil_move :: "fs \<Rightarrow> path \<Rightarrow> path \<Rightarrow> exn + fs" where
  "shutil_move disk src dst =
     (let real_dst = (if is_dir disk dst \<and> src \<noteq> dst then dst @ [name src] else dst) in
      if is_dir disk dst \<and> src \<noteq> dst \<and> path_exists disk real_dst
        then Inl (ShutilError (''Destination path '' @ quoted real_dst @ '' already exists''))
      else if src = real_dst then Inr disk
      else if is_dir disk src then
        (if prefix src real_dst
           then Inl (ShutilError (''Cannot move a directory '' @ quoted src
                       @ '' into itself '' @ quoted dst @ ''.''))
         else if path_exists disk real_dst then Inl (FileExistsError real_dst)
         else if \<not> is_dir disk (parent real_dst) then Inl (FileNotFoundError real_dst)
         else Inr (map (rename_entry src real_dst) disk))
      else
        (if \<not> is_dir disk (parent real_dst) then Inl (FileNotFoundError real_dst)
         else Inr (map (rename_entry src real_dst)
                     (filter (\<lambda>e. fst e \<noteq> real_dst) disk))))"

section \<open>The agent's tools\<close>

text \<open>
  \<^verbatim>\<open>move_rename_file\<close> (lines 117 to 135). Every exception becomes a message; the
  result is the disk afterwards and the message returned to the agent.
\<close>

definition move_rename_file :: "fs \<Rightarrow> path \<Rightarrow> path \<Rightarrow> fs \<times> string" where
  "move_rename_file disk old_path new_path =
     (if \<not> path_exists disk old_path
        then (disk, ''Error: Source path '' @ str_path old_path @ '' does not exist'')
      else
        (case mkdir_parents disk (parent new_path) of
           Inl e \<Rightarrow> (disk, ''Error moving file: '' @ str_exn e)
         | Inr disk1 \<Rightarrow>
             (case shutil_move disk1 old_path new_path of
                Inl e \<Rightarrow> (disk1, ''Error moving file: '' @ str_exn e)
              | Inr disk2 \<Rightarrow>
                  (disk2, ''Successfully moved '' @ str_path old_path
                            @ '' to '' @ str_path new_path))))"

text \<open>\<^verbatim>\<open>mark_completed\<close> (lines 137 to 140): a message, and nothing else.\<close>

definition mark_completed :: "string \<Rightarrow> string" where
  "mark_completed file_path =
     ''File '' @ file_path @ '' has been marked as completed and properly organized.''"

text \<open>
  \<^verbatim>\<open>json.dump(file_hashes, f, indent=2)\<close> on a dictionary from strings to strings,
  with the default \<^verbatim>\<open>ensure_ascii\<close>: the keys in insertion order.
\<close>

definition hex_digit :: "nat \<Rightarrow> char" where
  "hex_digit n = ''0123456789abcdef'' ! (n mod 16)"

definition json_char :: "char \<Rightarrow> string" where
  "json_char c =
     (if c = CHR 0x22 then [CHR 0x5C, CHR 0x22]
      else if c = CHR 0x5C then [CHR 0x5C, CHR 0x5C]
      else if c = CHR 0x0A then [CHR 0x5C, CHR ''n'']
      else if c = CHR 0x0D then [CHR 0x5C, CHR ''r'']
      else if c = CHR 0x09 then [CHR 0x5C, CHR ''t'']
      else if c = CHR 0x08 then [CHR 0x5C, CHR ''b'']
      else if c = CHR 0x0C then [CHR 0x5C, CHR ''f'']
      else if 32 \<le> (of_char c :: nat) \<and> (of_char c :: nat) \<le> 126 then [c]
      else [CHR 0x5C, CHR ''u'', CHR ''0'', CHR ''0'',
            hex_digit (of_char c div 16), hex_digit (of_char c)])"

definition json_string :: "string \<Rightarrow> string" where
  "json_string s = [CHR 0x22] @ concat (map json_char s) @ [CHR 0x22]"

definition json_item :: "string \<times> string \<Rightarrow> string" where
  "json_item kv = [CHR 0x0A] @ ''  '' @ json_string (fst kv) @ '': '' @ json_string (snd kv)"

fun json_items :: "(string \<times> string) list \<Rightarrow> string" where
  "json_items [] = []"
| "json_items [kv] = json_item kv"
| "json_items (kv # kw # rest) = json_item kv @ '','' @ json_items (kw # rest)"

definition json_dump :: "(string \<times> string) list \<Rightarrow> string" where
  "json_dump d = (if d = [] then ''{}'' else ''{'' @ json_items d @ [CHR 0x0A] @ ''}'')"

text \<open>
  \<^verbatim>\<open>calculate_folder_hashes\<close> (lines 142 to 167). \<open>md5\<close> is \<^verbatim>\<open>hashlib\<close>'s digest of
  a file's bytes in hexadecimal; feeding it 4096 bytes at a time gives the digest of
  the whole. The loop of lines 153 to 159 is \<open>hash_files\<close>, with the dictionary as an
  association list in insertion order.
\<close>

fun hash_files ::
  "(string \<Rightarrow> string) \<Rightarrow> fs \<Rightarrow> path \<Rightarrow> path list \<Rightarrow> (string \<times> string) list
     \<Rightarrow> exn + (string \<times> string) list" where
  "hash_files md5 disk folder [] file_hashes = Inr file_hashes"
| "hash_files md5 disk folder (file_path # rest) file_hashes =
     (if is_file disk file_path \<and> name file_path \<noteq> ''.media_hashes.json'' then
        (case read_bytes disk file_path of
           Inl e \<Rightarrow> Inl e
         | Inr bytes \<Rightarrow>
             hash_files md5 disk folder rest
               (AList.update (str_rel (relative_to file_path folder)) (md5 bytes) file_hashes))
      else hash_files md5 disk folder rest file_hashes)"

definition folder_hashes :: "(string \<Rightarrow> string) \<Rightarrow> fs \<Rightarrow> path \<Rightarrow> exn + (string \<times> string) list" where
  "folder_hashes md5 disk folder = hash_files md5 disk folder (rglob disk folder) []"

definition calculate_folder_hashes :: "(string \<Rightarrow> string) \<Rightarrow> fs \<Rightarrow> path \<Rightarrow> fs \<times> string" where
  "calculate_folder_hashes md5 disk folder =
     (if \<not> is_dir disk folder
        then (disk, ''Error: '' @ str_path folder @ '' is not a directory'')
      else
        (case folder_hashes md5 disk folder of
           Inl e \<Rightarrow> (disk, ''Error calculating hashes: '' @ str_exn e)
         | Inr file_hashes \<Rightarrow>
             (case write_text disk (folder @ [''.media_hashes.json'']) (json_dump file_hashes) of
                Inl e \<Rightarrow> (disk, ''Error calculating hashes: '' @ str_exn e)
              | Inr disk1 \<Rightarrow>
                  (disk1, ''Successfully created hash file for '' @ str_path folder))))"

section \<open>The organizer\<close>

text \<open>
  The fields \<^verbatim>\<open>__init__\<close> sets (lines 44 to 48); the language model and the prompt
  belong to the agent below.
\<close>

record organizer =
  target_directory :: path
  media_type :: string
  processed_files :: "string set"
  hash_filename :: string

definition MediaOrganizer :: "path \<Rightarrow> string \<Rightarrow> organizer" where
  "MediaOrganizer target media =
     \<lparr>target_directory = target, media_type = media, processed_files = {},
      hash_filename = ''.media_hashes.json''\<rparr>"

record file_entry =
  e_path :: string
  e_name :: string
  e_size :: nat
  e_parent :: string

record directory_state =
  directory :: string
  ds_media_type :: string
  files :: "file_entry list"
  total_files :: nat

text \<open>
  \<^verbatim>\<open>get_directory_state\<close> (lines 169 to 196). \<open>offered\<close> is the test an item of the
  walk passes to be appended to \<^verbatim>\<open>files\<close>; \<open>entry_of\<close> is the dictionary appended.
\<close>

definition offered :: "organizer \<Rightarrow> fs \<Rightarrow> path \<Rightarrow> bool" where
  "offered org disk item =
     (is_file disk item
      \<and> name item \<noteq> hash_filename org
      \<and> \<not> path_exists disk (parent item @ [hash_filename org])
      \<and> str_path item \<notin> processed_files org)"

definition st_size :: "fs \<Rightarrow> path \<Rightarrow> nat" where
  "st_size disk p = (case map_of disk p of Some (File r c) \<Rightarrow> length c | _ \<Rightarrow> 0)"

definition entry_of :: "fs \<Rightarrow> path \<Rightarrow> file_entry" where
  "entry_of disk item =
     \<lparr>e_path = str_path item, e_name = name item, e_size = st_size disk item,
      e_parent = str_path (parent item)\<rparr>"

definition snapshot_items :: "organizer \<Rightarrow> fs \<Rightarrow> path list" where
  "snapshot_items org disk = filter (offered org disk) (rglob disk (target_directory org))"

definition get_directory_state :: "organizer \<Rightarrow> fs \<Rightarrow> directory_state" where
  "get_directory_state org disk =
     (let fl = map (entry_of disk) (snapshot_items org disk) in
      \<lparr>directory = str_path (target_directory org), ds_media_type = media_type org,
       files = fl, total_files = length fl\<rparr>)"

section \<open>The decision agent\<close>

text \<open>
  \<^verbatim>\<open>self.agent.invoke\<close> is outside the repository. One invocation is a finite dialogue:
  the agent either returns its result (of which the loop reads the \<^verbatim>\<open>"output"\<close> entry,
  possibly absent), or raises, or calls one of the four tools of line 62 and goes on
  from the message the tool returns. The tools are functions of their arguments and
  of the disk only: none of them receives the organizer.
\<close>

datatype tool_call =
    SearchTmdb string string
  | MoveRenameFile path path
  | MarkCompleted string
  | CalculateFolderHashes path

datatype agent =
    Return "string option"
  | Raise string
  | CallTool tool_call "string \<Rightarrow> agent"

text \<open>
  What lies outside the program: the string \<^verbatim>\<open>search_tmdb\<close> (lines 78 to 115) returns
  for a query and a media type, which depends on the network and touches neither the
  disk nor the organizer; the digest function; and the agent's behaviour at its
  \<open>n\<close>-th invocation on a snapshot.
\<close>

record world =
  search_tmdb :: "string \<Rightarrow> string \<Rightarrow> string"
  md5_hex :: "string \<Rightarrow> string"
  agent_at :: "nat \<Rightarrow> directory_state \<Rightarrow> agent"

fun run_tool :: "world \<Rightarrow> fs \<Rightarrow> tool_call \<Rightarrow> fs \<times> string" where
  "run_tool w disk (SearchTmdb query kind) = (disk, search_tmdb w query kind)"
| "run_tool w disk (MoveRenameFile old_path new_path) = move_rename_file disk old_path new_path"
| "run_tool w disk (MarkCompleted file_path) = (disk, mark_completed file_path)"
| "run_tool w disk (CalculateFolderHashes folder) = calculate_folder_hashes (md5_hex w) disk folder"

primrec invoke :: "world \<Rightarrow> agent \<Rightarrow> fs \<Rightarrow> (string + string option) \<times> fs" where
  "invoke w (Return out) = (\<lambda>disk. (Inr out, disk))"
| "invoke w (Raise msg) = (\<lambda>disk. (Inl msg, disk))"
| "invoke w (CallTool c k) =
     (\<lambda>disk. case run_tool w disk c of (disk1, answer) \<Rightarrow> invoke w (k answer) disk1)"

text \<open>The tool calls an invocation makes, in order: the actions the agent performed.\<close>

primrec tool_calls :: "world \<Rightarrow> agent \<Rightarrow> fs \<Rightarrow> tool_call list" where
  "tool_calls w (Return out) = (\<lambda>disk. [])"
| "tool_calls w (Raise msg) = (\<lambda>disk. [])"
| "tool_calls w (CallTool c k) =
     (\<lambda>disk. case run_tool w disk c of (disk1, answer) \<Rightarrow> c # tool_calls w (k answer) disk1)"

section \<open>The organization loop\<close>

text \<open>\<^verbatim>\<open>str.lower\<close> on Latin-1 text, and the test \<^verbatim>\<open>needle in text\<close>.\<close>

definition lower_char :: "char \<Rightarrow> char" where
  "lower_char c =
     (let n = (of_char c :: nat) in
      if (65 \<le> n \<and> n \<le> 90) \<or> (192 \<le> n \<and> n \<le> 222 \<and> n \<noteq> 215)
      then char_of (n + 32) else c)"

definition lower :: "string \<Rightarrow> string" where
  "lower s = map lower_char s"

fun str_in :: "string \<Rightarrow> string \<Rightarrow> bool" where
  "str_in needle [] = (needle = [])"
| "str_in needle (c # cs) = (prefix needle (c # cs) \<or> str_in needle cs)"

text \<open>
  What a run leaves behind: the calls of \<^verbatim>\<open>get_directory_state\<close> and of the agent,
  and the three \<^verbatim>\<open>print\<close>s of \<^verbatim>\<open>organize\<close>, in order.
\<close>

datatype event =
    Scanned directory_state
  | Invoked directory_state
  | PrintNoMoreFiles
  | PrintAgentResult "string option"
  | PrintError string

datatype ending = Done | Aborted string

record run =
  ending :: ending
  final_org :: organizer
  final_disk :: fs
  trace :: "event list"

text \<open>Lines 216 to 221: what the loop does with the agent's result.\<close>

definition says_completed :: "string option \<Rightarrow> bool" where
  "says_completed out =
     str_in ''marked as completed'' (lower (case out of None \<Rightarrow> [] | Some s \<Rightarrow> s))"

definition record_completed :: "organizer \<Rightarrow> directory_state \<Rightarrow> string option \<Rightarrow> organizer" where
  "record_completed org st out =
     (if says_completed out
      then org\<lparr>processed_files := processed_files org \<union> set (map e_path (take 1 (files st)))\<rparr>
      else org)"

text \<open>
  One pass through the body of \<^verbatim>\<open>while True\<close> (lines 201 to 225): either the loop
  is left (\<open>Break\<close>), or the next pass starts from a new organizer, disk and trace.
\<close>

datatype pass = Break run | Again organizer fs "event list"

definition loop_body :: "world \<Rightarrow> nat \<Rightarrow> organizer \<Rightarrow> fs \<Rightarrow> event list \<Rightarrow> pass" where
  "loop_body w n org disk tr =
     (let st = get_directory_state org disk in
      if files st = [] then
        Break \<lparr>ending = Done, final_org = org, final_disk = disk,
               trace = tr @ [Scanned st, PrintNoMoreFiles]\<rparr>
      else
        (case invoke w (agent_at w n st) disk of
           (Inl msg, disk1) \<Rightarrow>
             Break \<lparr>ending = Aborted msg, final_org = org, final_disk = disk1,
                    trace = tr @ [Scanned st, Invoked st, PrintError msg]\<rparr>
         | (Inr out, disk1) \<Rightarrow>
             Again (record_completed org st out) disk1
                   (tr @ [Scanned st, Invoked st, PrintAgentResult out])))"

text \<open>
  The loop may run forever (an agent that changes nothing and reports nothing is offered
  the same files again), so a run that does not end is \<open>None\<close>.
\<close>

partial_function (option) organize_from ::
  "world \<Rightarrow> nat \<Rightarrow> organizer \<Rightarrow> fs \<Rightarrow> event list \<Rightarrow> run option" where
  "organize_from w n org disk tr =
     (case loop_body w n org disk tr of
        Break r \<Rightarrow> Some r
      | Again org1 disk1 tr1 \<Rightarrow> organize_from w (Suc n) org1 disk1 tr1)"

definition organize :: "world \<Rightarrow> organizer \<Rightarrow> fs \<Rightarrow> run option" where
  "organize w org disk = organize_from w 0 org disk []"

section \<open>Sample inputs\<close>

text \<open>
  A movie directory \<^verbatim>\<open>/m\<close> with two loose files, the same directory empty, and three
  agents: one that marks \<^verbatim>\<open>/m/b.mkv\<close> completed and hands the tool's message back as
  its output, one that marks \<^verbatim>\<open>/m/a.mkv\<close> completed and answers in its own words,
  and one whose invocation raises.
\<close>

definition demo_disk :: fs where
  "demo_disk =
     [([], Dir), ([''m''], Dir), ([''m'', ''a.mkv''], File True ''aa''),
      ([''m'', ''b.mkv''], File True ''bbb'')]"

definition bare_disk :: fs where
  "bare_disk = [([], Dir), ([''m''], Dir)]"

definition demo_org :: organizer where
  "demo_org = MediaOrganizer [''m''] ''movie''"

definition echo_world :: world where
  "echo_world =
     \<lparr>search_tmdb = (\<lambda>q k. ''{}''), md5_hex = (\<lambda>s. s),
      agent_at = (\<lambda>n st. CallTool (MarkCompleted ''/m/b.mkv'') (\<lambda>answer. Return (Some answer)))\<rparr>"

definition terse_world :: world where
  "terse_world =
     \<lparr>search_tmdb = (\<lambda>q k. ''{}''), md5_hex = (\<lambda>s. s),
      agent_at = (\<lambda>n st. CallTool (MarkCompleted ''/m/a.mkv'') (\<lambda>answer. Return (Some ''All done.'')))\<rparr>"

definition failing_world :: world where
  "failing_world =
     \<lparr>search_tmdb = (\<lambda>q k. ''{}''), md5_hex = (\<lambda>s. s),
      agent_at = (\<lambda>n st. Raise ''connection reset'')\<rparr>"

text \<open>
  A directory with a finished folder \<^verbatim>\<open>/m/F\<close> that has a subfolder, and a directory
  with a file that cannot be read.
\<close>

definition finished_disk :: fs where
  "finished_disk =
     [([], Dir), ([''m''], Dir), ([''m'', ''F''], Dir),
      ([''m'', ''F'', ''.media_hashes.json''], File True ''{}''),
      ([''m'', ''F'', ''x.mkv''], File True ''x''),
      ([''m'', ''F'', ''extras''], Dir),
      ([''m'', ''F'', ''extras'', ''y.mkv''], File True ''yy'')]"


section \<open>Properties\<close>

lemmas path_defs = str_path_def parent_def name_def path_exists_def is_file_def is_dir_def
lemmas scan_defs =
  get_directory_state_def snapshot_items_def rglob_def offered_def entry_of_def st_size_def
  MediaOrganizer_def
lemmas text_defs = says_completed_def mark_completed_def lower_def lower_char_def

lemma demo_state:
  "get_directory_state demo_org demo_disk =
     \<lparr>directory = ''/m'', ds_media_type = ''movie'',
      files = [\<lparr>e_path = ''/m/a.mkv'', e_name = ''a.mkv'', e_size = 2, e_parent = ''/m''\<rparr>,
               \<lparr>e_path = ''/m/b.mkv'', e_name = ''b.mkv'', e_size = 3, e_parent = ''/m''\<rparr>],
      total_files = 2\<rparr>"
  by (simp add: scan_defs path_defs demo_org_def demo_disk_def)

subsection \<open>The move tool\<close>



subsection \<open>The loop\<close>

lemma processed_record_completed:
  "processed_files (record_completed org st out) =
     (if says_completed out \<and> files st \<noteq> []
      then insert (e_path (hd (files st))) (processed_files org) else processed_files org)"
  by (cases "files st") (simp_all add: record_completed_def)

lemma loop_body_Again:
  "loop_body w n org disk tr = Again org1 disk1 tr1 \<Longrightarrow>
   \<exists>out. files (get_directory_state org disk) \<noteq> []
     \<and> invoke w (agent_at w n (get_directory_state org disk)) disk = (Inr out, disk1)
     \<and> org1 = record_completed org (get_directory_state org disk) out
     \<and> tr1 = tr @ [Scanned (get_directory_state org disk),
                    Invoked (get_directory_state org disk), PrintAgentResult out]"
  by (auto simp: loop_body_def Let_def split: if_splits prod.splits sum.splits)

lemma loop_body_Break:
  "loop_body w n org disk tr = Break r \<Longrightarrow> final_org r = org"
  by (auto simp: loop_body_def Let_def split: if_splits prod.splits sum.splits)

text \<open>
  C8: when the first snapshot of the target directory has no files, the run ends
  \<open>Done\<close> after that one scan; the trace holds the scan and the closing message, and
  no invocation of the agent.
\<close>

theorem empty_snapshot_done:
  "files (get_directory_state org disk) = [] \<Longrightarrow>
   organize w org disk =
     Some \<lparr>ending = Done, final_org = org, final_disk = disk,
           trace = [Scanned (get_directory_state org disk), PrintNoMoreFiles]\<rparr>"
  unfolding organize_def
  by (subst organize_from.simps) (simp add: loop_body_def Let_def)

theorem empty_snapshot_done_witness:
  "files (get_directory_state demo_org bare_disk) = []
   \<and> organize echo_world demo_org bare_disk =
     Some \<lparr>ending = Done, final_org = demo_org, final_disk = bare_disk,
           trace = [Scanned \<lparr>directory = ''/m'', ds_media_type = ''movie'', files = [],
                             total_files = 0\<rparr>,
                    PrintNoMoreFiles]\<rparr>"
proof -
  have st: "get_directory_state demo_org bare_disk
            = \<lparr>directory = ''/m'', ds_media_type = ''movie'', files = [], total_files = 0\<rparr>"
    by (simp add: scan_defs path_defs demo_org_def bare_disk_def)
  then have h: "files (get_directory_state demo_org bare_disk) = []" by simp
  from empty_snapshot_done [OF h, of echo_world] h st show ?thesis by simp
qed

text \<open>
  C9: when the invocation of the agent raises, in whichever pass of the loop, the run
  ends \<open>Aborted\<close> with that error in the same pass: after the scan and the one
  invocation the trace only gains the error message, so the agent is not invoked
  again and the directory is not scanned again.
\<close>

theorem agent_failure_aborts:
  assumes "files (get_directory_state org disk) \<noteq> []"
    and "invoke w (agent_at w n (get_directory_state org disk)) disk = (Inl msg, disk1)"
  shows "organize_from w n org disk tr =
     Some \<lparr>ending = Aborted msg, final_org = org, final_disk = disk1,
           trace = tr @ [Scanned (get_directory_state org disk),
                         Invoked (get_directory_state org disk), PrintError msg]\<rparr>"
  using assms by (subst organize_from.simps) (simp add: loop_body_def Let_def)

theorem agent_failure_aborts_witness:
  "files (get_directory_state demo_org demo_disk) \<noteq> []
   \<and> invoke failing_world (agent_at failing_world 0 (get_directory_state demo_org demo_disk))
        demo_disk
       = (Inl ''connection reset'', demo_disk)
   \<and> organize_from failing_world 0 demo_org demo_disk [] =
     Some \<lparr>ending = Aborted ''connection reset'', final_org = demo_org, final_disk = demo_disk,
           trace = [Scanned (get_directory_state demo_org demo_disk),
                    Invoked (get_directory_state demo_org demo_disk),
                    PrintError ''connection reset'']\<rparr>"
proof -
  have h1: "files (get_directory_state demo_org demo_disk) \<noteq> []"
    by (simp add: demo_state)
  have h2: "invoke failing_world
              (agent_at failing_world 0 (get_directory_state demo_org demo_disk)) demo_disk
            = (Inl ''connection reset'', demo_disk)"
    by (simp add: failing_world_def)
  from agent_failure_aborts [OF h1 h2, of "[]"] h1 h2 show ?thesis by simp
qed

lemma echo_pass:
  "loop_body echo_world 0 demo_org demo_disk [] =
     Again (demo_org\<lparr>processed_files := {''/m/a.mkv''}\<rparr>) demo_disk
       [Scanned (get_directory_state demo_org demo_disk),
        Invoked (get_directory_state demo_org demo_disk),
        PrintAgentResult (Some (mark_completed ''/m/b.mkv''))]"
proof -
  have s: "says_completed (Some (mark_completed ''/m/b.mkv''))"
    by (simp add: text_defs)
  have i: "invoke echo_world (agent_at echo_world 0 (get_directory_state demo_org demo_disk))
             demo_disk
           = (Inr (Some (mark_completed ''/m/b.mkv'')), demo_disk)"
    by (simp add: echo_world_def)
  show ?thesis
    unfolding loop_body_def Let_def i
    by (simp add: demo_state record_completed_def s) (simp add: demo_org_def MediaOrganizer_def)
qed

lemma terse_pass:
  "loop_body terse_world 0 demo_org demo_disk [] =
     Again demo_org demo_disk
       [Scanned (get_directory_state demo_org demo_disk),
        Invoked (get_directory_state demo_org demo_disk),
        PrintAgentResult (Some ''All done.'')]"
proof -
  have s: "\<not> says_completed (Some ''All done.'')"
    by (simp add: text_defs)
  have i: "invoke terse_world (agent_at terse_world 0 (get_directory_state demo_org demo_disk))
             demo_disk
           = (Inr (Some ''All done.''), demo_disk)"
    by (simp add: terse_world_def)
  show ?thesis
    unfolding loop_body_def Let_def i
    by (simp add: demo_state record_completed_def s)
qed

lemma echo_next_state:
  "map e_path
     (files (get_directory_state (demo_org\<lparr>processed_files := {''/m/a.mkv''}\<rparr>) demo_disk))
     = [''/m/b.mkv'']"
  by (simp add: scan_defs path_defs demo_org_def demo_disk_def)

lemma snapshot_excludes_processed:
  "e \<in> set (files (get_directory_state org disk)) \<Longrightarrow> e_path e \<notin> processed_files org"
  by (auto simp: get_directory_state_def snapshot_items_def offered_def entry_of_def)

text \<open>
  C10: in every pass of the loop at most one path is added to \<^verbatim>\<open>processed_files\<close>,
  and a path that is added is the path of the first file of the pass's snapshot,
  whatever the agent did and reported; a pass that leaves the loop adds nothing.
\<close>

theorem one_path_per_pass:
  "(\<forall>org1 disk1 tr1. loop_body w n org disk tr = Again org1 disk1 tr1 \<longrightarrow>
      processed_files org1 - processed_files org
        \<subseteq> {e_path (hd (files (get_directory_state org disk)))}
      \<and> card (processed_files org1 - processed_files org) \<le> 1)
   \<and> (\<forall>r. loop_body w n org disk tr = Break r \<longrightarrow>
        processed_files (final_org r) = processed_files org)"
proof (intro conjI allI impI)
  fix org1 disk1 tr1
  assume a: "loop_body w n org disk tr = Again org1 disk1 tr1"
  from loop_body_Again [OF a] obtain out where
    o: "org1 = record_completed org (get_directory_state org disk) out" by blast
  show s: "processed_files org1 - processed_files org
        \<subseteq> {e_path (hd (files (get_directory_state org disk)))}"
    by (auto simp: o processed_record_completed split: if_splits)
  have "card (processed_files org1 - processed_files org)
        \<le> card {e_path (hd (files (get_directory_state org disk)))}"
    by (rule card_mono [OF _ s]) simp
  then show "card (processed_files org1 - processed_files org) \<le> 1" by simp
next
  fix r assume "loop_body w n org disk tr = Break r"
  then show "processed_files (final_org r) = processed_files org"
    by (simp add: loop_body_Break)
qed

theorem one_path_per_pass_witness:
  "loop_body echo_world 0 demo_org demo_disk [] =
     Again (demo_org\<lparr>processed_files := {''/m/a.mkv''}\<rparr>) demo_disk
       [Scanned (get_directory_state demo_org demo_disk),
        Invoked (get_directory_state demo_org demo_disk),
        PrintAgentResult (Some (mark_completed ''/m/b.mkv''))]
   \<and> processed_files (demo_org\<lparr>processed_files := {''/m/a.mkv''}\<rparr>) - processed_files demo_org
        \<subseteq> {''/m/a.mkv''}
   \<and> card (processed_files (demo_org\<lparr>processed_files := {''/m/a.mkv''}\<rparr>)
            - processed_files demo_org) \<le> 1"
  using one_path_per_pass [of echo_world 0 demo_org demo_disk "[]"] echo_pass
  by (simp add: demo_state)

text \<open>
  C2, as the specification has it, fails: the agent of \<open>echo_world\<close> performs one
  action, marking \<^verbatim>\<open>/m/b.mkv\<close> completed; the pass records \<^verbatim>\<open>/m/a.mkv\<close>, which no
  action concerned, and \<^verbatim>\<open>/m/b.mkv\<close> is offered again in the next snapshot.
\<close>

theorem recorded_paths_counterexample:
  "tool_calls echo_world (agent_at echo_world 0 (get_directory_state demo_org demo_disk)) demo_disk
     = [MarkCompleted ''/m/b.mkv'']
   \<and> loop_body echo_world 0 demo_org demo_disk [] =
     Again (demo_org\<lparr>processed_files := {''/m/a.mkv''}\<rparr>) demo_disk
       [Scanned (get_directory_state demo_org demo_disk),
        Invoked (get_directory_state demo_org demo_disk),
        PrintAgentResult (Some (mark_completed ''/m/b.mkv''))]
   \<and> ''/m/b.mkv'' \<notin> processed_files (demo_org\<lparr>processed_files := {''/m/a.mkv''}\<rparr>)
   \<and> map e_path
        (files (get_directory_state (demo_org\<lparr>processed_files := {''/m/a.mkv''}\<rparr>) demo_disk))
       = [''/m/b.mkv'']"
  using echo_pass echo_next_state by (simp add: echo_world_def)

text \<open>
  C2, amended: in a pass whose agent invocation returns, the loop records the path of
  the first file of the pass's snapshot exactly when the agent's output, in lower
  case, contains \<^verbatim>\<open>marked as completed\<close>, and records nothing otherwise, whichever
  actions the agent performed; no path of \<^verbatim>\<open>processed_files\<close> is in the next snapshot.
\<close>

theorem applying_records_first:
  assumes "files (get_directory_state org disk) \<noteq> []"
    and "invoke w (agent_at w n (get_directory_state org disk)) disk = (Inr out, disk1)"
  shows "loop_body w n org disk tr =
       Again (record_completed org (get_directory_state org disk) out) disk1
         (tr @ [Scanned (get_directory_state org disk), Invoked (get_directory_state org disk),
                PrintAgentResult out])
     \<and> processed_files (record_completed org (get_directory_state org disk) out) =
         (if says_completed out
          then insert (e_path (hd (files (get_directory_state org disk)))) (processed_files org)
          else processed_files org)
     \<and> (\<forall>e \<in> set (files (get_directory_state
                           (record_completed org (get_directory_state org disk) out) disk1)).
          e_path e \<notin> processed_files (record_completed org (get_directory_state org disk) out))"
proof -
  let ?st = "get_directory_state org disk"
  have "loop_body w n org disk tr
        = Again (record_completed org ?st out) disk1
            (tr @ [Scanned ?st, Invoked ?st, PrintAgentResult out])"
    using assms by (simp add: loop_body_def Let_def)
  moreover have "processed_files (record_completed org ?st out) =
         (if says_completed out then insert (e_path (hd (files ?st))) (processed_files org)
          else processed_files org)"
    using assms(1) by (simp add: processed_record_completed)
  ultimately show ?thesis
    using snapshot_excludes_processed by blast
qed

theorem applying_records_first_witness:
  "files (get_directory_state demo_org demo_disk) \<noteq> []
   \<and> invoke echo_world (agent_at echo_world 0 (get_directory_state demo_org demo_disk)) demo_disk
       = (Inr (Some (mark_completed ''/m/b.mkv'')), demo_disk)
   \<and> says_completed (Some (mark_completed ''/m/b.mkv''))
   \<and> processed_files (record_completed demo_org (get_directory_state demo_org demo_disk)
        (Some (mark_completed ''/m/b.mkv''))) = {''/m/a.mkv''}
   \<and> map e_path (files (get_directory_state
        (record_completed demo_org (get_directory_state demo_org demo_disk)
           (Some (mark_completed ''/m/b.mkv''))) demo_disk)) = [''/m/b.mkv'']
   \<and> ''/m/b.mkv'' \<notin> processed_files (record_completed demo_org
        (get_directory_state demo_org demo_disk) (Some (mark_completed ''/m/b.mkv'')))"
proof -
  let ?out = "Some (mark_completed ''/m/b.mkv'')"
  have h1: "files (get_directory_state demo_org demo_disk) \<noteq> []"
    by (simp add: demo_state)
  have h2: "invoke echo_world (agent_at echo_world 0 (get_directory_state demo_org demo_disk))
              demo_disk = (Inr ?out, demo_disk)"
    by (simp add: echo_world_def)
  have s: "says_completed ?out"
    by (simp add: text_defs)
  have r: "record_completed demo_org (get_directory_state demo_org demo_disk) ?out
           = demo_org\<lparr>processed_files := {''/m/a.mkv''}\<rparr>"
    by (simp add: record_completed_def s demo_state) (simp add: demo_org_def MediaOrganizer_def)
  from applying_records_first [OF h1 h2, of "[]"] h1 h2 s echo_next_state
  show ?thesis by (simp add: r)
qed

subsection \<open>The completion tracker\<close>

text \<open>
  C3, as the specification has it, fails: the agent of \<open>terse_world\<close> invokes
  \<^verbatim>\<open>mark_completed\<close> on \<^verbatim>\<open>/m/a.mkv\<close>, and after the pass that path is not in
  \<^verbatim>\<open>processed_files\<close>.
\<close>

theorem mark_completed_counterexample:
  "tool_calls terse_world (agent_at terse_world 0 (get_directory_state demo_org demo_disk))
       demo_disk = [MarkCompleted ''/m/a.mkv'']
   \<and> loop_body terse_world 0 demo_org demo_disk [] =
     Again demo_org demo_disk
       [Scanned (get_directory_state demo_org demo_disk),
        Invoked (get_directory_state demo_org demo_disk),
        PrintAgentResult (Some ''All done.'')]
   \<and> ''/m/a.mkv'' \<notin> processed_files demo_org"
  using terse_pass by (simp add: terse_world_def demo_org_def MediaOrganizer_def)

text \<open>
  C3, amended: \<^verbatim>\<open>mark_completed\<close> on a path only returns a message naming it; the
  disk is unchanged and the tool has no access to \<^verbatim>\<open>processed_files\<close>, so an agent
  that invokes it twice leaves the same state as one that invokes it once. Membership
  comes from the loop's own recording step, which adds the first file of the snapshot
  when the output says so; recording twice gives the same set, of the same size, as
  recording once.
\<close>

theorem mark_completed_pure:
  "run_tool w disk (MarkCompleted p) = (disk, mark_completed p)
   \<and> invoke w (CallTool (MarkCompleted p) (\<lambda>a1. CallTool (MarkCompleted p) k)) disk
       = invoke w (CallTool (MarkCompleted p) k) disk
   \<and> invoke w (CallTool (MarkCompleted p) k) disk = invoke w (k (mark_completed p)) disk
   \<and> record_completed (record_completed org st out) st out = record_completed org st out
   \<and> card (processed_files (record_completed (record_completed org st out) st out))
       = card (processed_files (record_completed org st out))
   \<and> (says_completed out \<and> files st \<noteq> [] \<longrightarrow>
        e_path (hd (files st)) \<in> processed_files (record_completed org st out))"
proof -
  have idem: "record_completed (record_completed org st out) st out = record_completed org st out"
    by (simp add: record_completed_def)
  show ?thesis
    by (simp add: idem processed_record_completed)
qed

theorem mark_completed_pure_witness:
  "says_completed (Some (mark_completed ''/m/b.mkv''))
   \<and> files (get_directory_state demo_org demo_disk) \<noteq> []
   \<and> ''/m/a.mkv'' \<in> processed_files
        (record_completed demo_org (get_directory_state demo_org demo_disk)
           (Some (mark_completed ''/m/b.mkv'')))
   \<and> run_tool echo_world demo_disk (MarkCompleted ''/m/b.mkv'')
       = (demo_disk, mark_completed ''/m/b.mkv'')"
proof -
  have s: "says_completed (Some (mark_completed ''/m/b.mkv''))"
    by (simp add: text_defs)
  have h: "files (get_directory_state demo_org demo_disk) \<noteq> []"
    by (simp add: demo_state)
  from mark_completed_pure [of echo_world demo_disk "''/m/b.mkv''" "\<lambda>a. Return None" demo_org
      "get_directory_state demo_org demo_disk" "Some (mark_completed ''/m/b.mkv'')"] s h
  show ?thesis by (simp add: demo_state)
qed

subsection \<open>The directory snapshot\<close>





subsection \<open>The hash manifest\<close>

lemma set_update_subset:
  "e \<in> set (AList.update k v al) \<Longrightarrow> e = (k, v) \<or> e \<in> set al"
  by (induction al) (auto split: if_splits)

lemma hash_files_keys:
  assumes "hash_files md5 disk folder ps acc = Inr h"
    and "\<And>k v. (k, v) \<in> set acc \<Longrightarrow> G k v"
    and "\<And>p c. p \<in> set ps \<Longrightarrow> is_file disk p \<Longrightarrow> name p \<noteq> ''.media_hashes.json''
           \<Longrightarrow> read_bytes disk p = Inr c \<Longrightarrow> G (str_rel (relative_to p folder)) (md5 c)"
    and "(k, v) \<in> set h"
  shows "G k v"
  using assms
proof (induction ps arbitrary: acc)
  case Nil
  then show ?case by simp
next
  case (Cons p ps)
  show ?case
  proof (cases "is_file disk p \<and> name p \<noteq> ''.media_hashes.json''")
    case False
    with Cons.prems(1) have "hash_files md5 disk folder ps acc = Inr h" by auto
    from Cons.IH [OF this Cons.prems(2) _ Cons.prems(4)] Cons.prems(3) show ?thesis by simp
  next
    case True
    with Cons.prems(1) obtain c where c: "read_bytes disk p = Inr c"
      and r: "hash_files md5 disk folder ps
                (AList.update (str_rel (relative_to p folder)) (md5 c) acc) = Inr h"
      by (auto split: sum.splits)
    have g: "G (str_rel (relative_to p folder)) (md5 c)"
      using Cons.prems(3) [of p c] True c by simp
    show ?thesis
    proof (rule Cons.IH [OF r _ _ Cons.prems(4)])
      fix k' v' assume "(k', v') \<in> set (AList.update (str_rel (relative_to p folder)) (md5 c) acc)"
      then show "G k' v'" using set_update_subset g Cons.prems(2) by fastforce
    next
      fix q d assume "q \<in> set ps" "is_file disk q" "name q \<noteq> ''.media_hashes.json''"
        "read_bytes disk q = Inr d"
      then show "G (str_rel (relative_to q folder)) (md5 d)"
        using Cons.prems(3) by simp
    qed
  qed
qed

lemma str_rel_single:
  "rel \<noteq> [] \<Longrightarrow> CHR ''/'' \<notin> set (str_rel rel) \<Longrightarrow> rel = [str_rel rel]"
  by (induction rel rule: str_rel.induct) auto

lemma rglob_below:
  "p \<in> set (rglob disk folder) \<Longrightarrow> strict_prefix folder p"
  by (auto simp: rglob_def split: if_splits)

lemma relative_to_below:
  assumes "strict_prefix folder p"
  shows "folder @ relative_to p folder = p" and "relative_to p folder \<noteq> []"
    and "last (relative_to p folder) = name p"
proof -
  from assms obtain z zs where p: "p = folder @ z # zs"
    by (auto elim: strict_prefixE')
  show "folder @ relative_to p folder = p" by (simp add: p relative_to_def)
  show "relative_to p folder \<noteq> []" by (simp add: p relative_to_def)
  show "last (relative_to p folder) = name p" by (simp add: p relative_to_def name_def)
qed

lemma manifest_key_only_from_manifest:
  assumes "strict_prefix folder p" and "str_rel (relative_to p folder) = ''.media_hashes.json''"
  shows "name p = ''.media_hashes.json''"
proof -
  have "CHR ''/'' \<notin> set (str_rel (relative_to p folder))"
    by (simp add: assms(2))
  with relative_to_below(2) [OF assms(1)]
  have "relative_to p folder = [''.media_hashes.json'']"
    using str_rel_single assms(2) by metis
  with relative_to_below(3) [OF assms(1)] show ?thesis by simp
qed

text \<open>
  C5: the mapping \<^verbatim>\<open>calculate_folder_hashes\<close> builds for a folder, and then writes,
  has no key \<^verbatim>\<open>.media_hashes.json\<close>; every key is the path, relative to the folder,
  of a regular file below the folder that is not named as the manifest, and its value
  is the digest of that file's bytes.
\<close>

theorem manifest_keys:
  assumes "folder_hashes md5 disk folder = Inr h"
  shows "''.media_hashes.json'' \<notin> fst ` set h
     \<and> (\<forall>kv \<in> set h. \<exists>p c. p \<in> set (rglob disk folder)
           \<and> folder @ relative_to p folder = p
           \<and> fst kv = str_rel (relative_to p folder)
           \<and> is_file disk p \<and> name p \<noteq> ''.media_hashes.json''
           \<and> read_bytes disk p = Inr c \<and> snd kv = md5 c)"
proof -
  let ?G = "\<lambda>k v. \<exists>p c. p \<in> set (rglob disk folder)
           \<and> folder @ relative_to p folder = p
           \<and> k = str_rel (relative_to p folder)
           \<and> is_file disk p \<and> name p \<noteq> ''.media_hashes.json''
           \<and> read_bytes disk p = Inr c \<and> v = md5 c"
  have G: "?G k v" if "(k, v) \<in> set h" for k v :: string
  proof (rule hash_files_keys [where G = ?G, OF assms [unfolded folder_hashes_def] _ _ that])
    fix k v :: string assume "(k, v) \<in> set []" then show "?G k v" by simp
  next
    fix p c assume "p \<in> set (rglob disk folder)" "is_file disk p"
      "name p \<noteq> ''.media_hashes.json''" "read_bytes disk p = Inr c"
    then show "?G (str_rel (relative_to p folder)) (md5 c)"
      using relative_to_below(1) [OF rglob_below] by blast
  qed
  have "''.media_hashes.json'' \<notin> fst ` set h"
  proof
    assume "''.media_hashes.json'' \<in> fst ` set h"
    then obtain v where "(''.media_hashes.json'', v) \<in> set h" by auto
    from G [OF this] obtain p where p: "p \<in> set (rglob disk folder)"
      "''.media_hashes.json'' = str_rel (relative_to p folder)" "name p \<noteq> ''.media_hashes.json''"
      by blast
    from manifest_key_only_from_manifest [OF rglob_below [OF p(1)] p(2) [symmetric]] p(3)
    show False by simp
  qed
  moreover have "\<forall>kv \<in> set h. ?G (fst kv) (snd kv)"
    using G by auto
  ultimately show ?thesis by blast
qed

lemma finished_hashes:
  "folder_hashes (\<lambda>s. s) finished_disk [''m'', ''F'']
     = Inr [(''x.mkv'', ''x''), (''extras/y.mkv'', ''yy'')]"
  by (simp add: folder_hashes_def rglob_def path_defs finished_disk_def read_bytes_def relative_to_def)

theorem manifest_keys_witness:
  "folder_hashes (\<lambda>s. s) finished_disk [''m'', ''F'']
     = Inr [(''x.mkv'', ''x''), (''extras/y.mkv'', ''yy'')]
   \<and> ''.media_hashes.json'' \<notin> fst ` set [(''x.mkv'', ''x''), (''extras/y.mkv'', ''yy'')]
   \<and> is_file finished_disk [''m'', ''F'', ''.media_hashes.json'']"
  using manifest_keys [OF finished_hashes] finished_hashes
  by (simp add: is_file_def finished_disk_def)





lemma hash_files_cong:
  assumes "\<And>p. p \<in> set ps \<Longrightarrow> name p \<noteq> ''.media_hashes.json'' \<Longrightarrow> map_of disk1 p = map_of disk p"
  shows "hash_files md5 disk1 folder ps acc = hash_files md5 disk folder ps acc"
  using assms
proof (induction ps arbitrary: acc)
  case Nil
  then show ?case by simp
next
  case (Cons a ps)
  have rest: "\<And>acc. hash_files md5 disk1 folder ps acc = hash_files md5 disk folder ps acc"
    using Cons by simp
  show ?case
  proof (cases "name a = ''.media_hashes.json''")
    case True
    then show ?thesis by (simp add: rest)
  next
    case False
    with Cons.prems have "map_of disk1 a = map_of disk a" by simp
    then show ?thesis
      by (simp add: rest is_file_def read_bytes_def split: option.splits node.splits)
  qed
qed

lemma hash_files_skip_last:
  "name q = ''.media_hashes.json'' \<Longrightarrow>
   hash_files md5 disk folder (ps @ [q]) acc = hash_files md5 disk folder ps acc"
  by (induction ps arbitrary: acc) (auto split: sum.splits)

lemma name_snoc: "name (folder @ [c]) = c"
  by (simp add: name_def)

lemma rglob_after_update:
  assumes "is_dir disk folder"
  shows "rglob (AList.update (folder @ [c]) v disk) folder = rglob disk folder
       \<or> rglob (AList.update (folder @ [c]) v disk) folder = rglob disk folder @ [folder @ [c]]"
proof -
  have d: "is_dir (AList.update (folder @ [c]) v disk) folder"
    using assms by (simp add: is_dir_def update_conv')
  show ?thesis
    by (simp add: rglob_def d assms update_keys)
qed

lemma folder_hashes_after_update:
  assumes "is_dir disk folder"
  shows "folder_hashes md5 (AList.update (folder @ [''.media_hashes.json'']) v disk) folder
       = folder_hashes md5 disk folder"
proof -
  let ?mp = "folder @ [''.media_hashes.json'']"
  let ?disk1 = "AList.update ?mp v disk"
  have same: "hash_files md5 ?disk1 folder ps [] = hash_files md5 disk folder ps []" for ps
  proof (rule hash_files_cong)
    fix p assume "name p \<noteq> ''.media_hashes.json''"
    then have "p \<noteq> ?mp" using name_snoc by metis
    then show "map_of ?disk1 p = map_of disk p" by (simp add: update_conv')
  qed
  from rglob_after_update [OF assms, of "''.media_hashes.json''" v]
  show ?thesis
  proof
    assume "rglob ?disk1 folder = rglob disk folder"
    then show ?thesis by (simp add: folder_hashes_def same)
  next
    assume "rglob ?disk1 folder = rglob disk folder @ [?mp]"
    then show ?thesis
      by (simp add: folder_hashes_def same hash_files_skip_last name_snoc)
  qed
qed

lemma write_text_Inr:
  "write_text disk p s = Inr disk1 \<Longrightarrow>
   \<exists>r. disk1 = AList.update p (File r s) disk \<and> map_of disk1 p = Some (File r s)"
  by (auto simp: write_text_def update_conv' split: option.splits node.splits if_splits)

lemma write_text_again:
  "write_text disk p s = Inr disk1 \<Longrightarrow> write_text disk1 p s = Inr disk1"
proof -
  assume "write_text disk p s = Inr disk1"
  from write_text_Inr [OF this] obtain r where
    r: "disk1 = AList.update p (File r s) disk" "map_of disk1 p = Some (File r s)" by blast
  have "write_text disk1 p s = Inr (AList.update p (File r s) disk1)"
    by (simp add: write_text_def r(2))
  also have "AList.update p (File r s) disk1 = disk1"
    by (simp add: r(1))
  finally show ?thesis .
qed

lemma hashing_again:
  "calculate_folder_hashes md5 (fst (calculate_folder_hashes md5 disk folder)) folder
     = calculate_folder_hashes md5 disk folder"
proof (cases "is_dir disk folder")
  case False
  then show ?thesis by (simp add: calculate_folder_hashes_def)
next
  case d: True
  show ?thesis
  proof (cases "folder_hashes md5 disk folder")
    case (Inl e)
    with d show ?thesis by (simp add: calculate_folder_hashes_def)
  next
    case h: (Inr file_hashes)
    let ?mp = "folder @ [''.media_hashes.json'']"
    show ?thesis
    proof (cases "write_text disk ?mp (json_dump file_hashes)")
      case (Inl e)
      with d h show ?thesis by (simp add: calculate_folder_hashes_def)
    next
      case (Inr disk1)
      from write_text_Inr [OF Inr] obtain r where
        r: "disk1 = AList.update ?mp (File r (json_dump file_hashes)) disk" by blast
      have first: "calculate_folder_hashes md5 disk folder
                   = (disk1, ''Successfully created hash file for '' @ str_path folder)"
        using d h Inr by (simp add: calculate_folder_hashes_def)
      have d1: "is_dir disk1 folder"
        using d by (simp add: r is_dir_def update_conv')
      have h1: "folder_hashes md5 disk1 folder = Inr file_hashes"
        unfolding r using folder_hashes_after_update [OF d] h by simp
      have "calculate_folder_hashes md5 disk1 folder
            = (disk1, ''Successfully created hash file for '' @ str_path folder)"
        using d1 h1 write_text_again [OF Inr] by (simp add: calculate_folder_hashes_def)
      with first show ?thesis by simp
    qed
  qed
qed


text \<open>
  C7: run a second time on the disk the first run left, with nothing else changed,
  \<^verbatim>\<open>calculate_folder_hashes\<close> returns the same message and leaves the same disk; the
  manifest file holds the same bytes after both runs.
\<close>

theorem hashing_twice:
  "calculate_folder_hashes md5 (fst (calculate_folder_hashes md5 disk folder)) folder
     = calculate_folder_hashes md5 disk folder
   \<and> read_bytes (fst (calculate_folder_hashes md5
                        (fst (calculate_folder_hashes md5 disk folder)) folder))
         (folder @ [''.media_hashes.json''])
     = read_bytes (fst (calculate_folder_hashes md5 disk folder))
         (folder @ [''.media_hashes.json''])"
  by (simp add: hashing_again)

theorem hashing_twice_witness:
  "calculate_folder_hashes (\<lambda>s. s) demo_disk [''m'']
     = (demo_disk @ [([''m'', ''.media_hashes.json''],
                      File True (json_dump [(''a.mkv'', ''aa''), (''b.mkv'', ''bbb'')]))],
        ''Successfully created hash file for /m'')
   \<and> calculate_folder_hashes (\<lambda>s. s)
        (demo_disk @ [([''m'', ''.media_hashes.json''],
                       File True (json_dump [(''a.mkv'', ''aa''), (''b.mkv'', ''bbb'')]))]) [''m'']
     = (demo_disk @ [([''m'', ''.media_hashes.json''],
                      File True (json_dump [(''a.mkv'', ''aa''), (''b.mkv'', ''bbb'')]))],
        ''Successfully created hash file for /m'')
   \<and> read_bytes (demo_disk @ [([''m'', ''.media_hashes.json''],
                      File True (json_dump [(''a.mkv'', ''aa''), (''b.mkv'', ''bbb'')]))])
        [''m'', ''.media_hashes.json'']
     = Inr (json_dump [(''a.mkv'', ''aa''), (''b.mkv'', ''bbb'')])"
proof -
  have first: "calculate_folder_hashes (\<lambda>s. s) demo_disk [''m'']
     = (demo_disk @ [([''m'', ''.media_hashes.json''],
                      File True (json_dump [(''a.mkv'', ''aa''), (''b.mkv'', ''bbb'')]))],
        ''Successfully created hash file for /m'')"
    by (simp add: calculate_folder_hashes_def folder_hashes_def rglob_def path_defs
          demo_disk_def read_bytes_def write_text_def relative_to_def)
  from hashing_twice [of "\<lambda>s. s" demo_disk "[''m'']"] first
  show ?thesis by (simp add: read_bytes_def demo_disk_def)
qed

end
